theory Spec2Isabelle
  imports Complex_Main "HOL-Library.Sublist" "HOL-Library.Multiset"
begin

section \<open>Data model (models.py)\<close>

text \<open>
  The pydantic models \<^verbatim>\<open>EV\<close> and \<^verbatim>\<open>Station\<close>. Both classes have fields
  \<^verbatim>\<open>id\<close>, \<^verbatim>\<open>lat\<close> and \<^verbatim>\<open>lon\<close>; the record fields carry a prefix to keep them
  apart. Python's \<^verbatim>\<open>int\<close> is unbounded, hence \<open>int\<close>. The coordinates are
  \<^verbatim>\<open>float\<close>s that the program keeps near a city: they are taken as \<open>real\<close>, and the
  arithmetic on them as exact.
\<close>

record EV =
  ev_id :: string
  battery :: int
  ev_lat :: real
  ev_lon :: real
  assigned_station :: "string option"

record Station =
  st_id :: string
  st_lat :: real
  st_lon :: real
  capacity :: int
  occupied :: int

record FleetData =
  fleet_evs :: "EV list"
  fleet_stations :: "Station list"

section \<open>Distance resolver (optimizer.py, real\_distance)\<close>

subsection \<open>Decoded JSON and Python subscripting\<close>

text \<open>
  A Python number as a provider can send it: an \<^verbatim>\<open>int\<close> or a finite \<^verbatim>\<open>float\<close>, or one
  of the floats \<^verbatim>\<open>inf\<close>, \<^verbatim>\<open>-inf\<close> and \<^verbatim>\<open>nan\<close>, which \<^verbatim>\<open>r.json()\<close> yields for
  \<^verbatim>\<open>Infinity\<close> or \<^verbatim>\<open>1e309\<close>, for \<^verbatim>\<open>-Infinity\<close> and for \<^verbatim>\<open>NaN\<close>.
\<close>

datatype number =
    Finite real
  | PosInf
  | NegInf
  | NaN

text \<open>Python's \<^verbatim>\<open><\<close> on numbers: every comparison with \<^verbatim>\<open>nan\<close> is false.\<close>

fun py_less :: "number \<Rightarrow> number \<Rightarrow> bool" where
  "py_less (Finite a) (Finite b) = (a < b)"
| "py_less (Finite a) PosInf = True"
| "py_less NegInf (Finite b) = True"
| "py_less NegInf PosInf = True"
| "py_less _ _ = False"

text \<open>
  What \<^verbatim>\<open>r.json()\<close> returns: \<^verbatim>\<open>None\<close>, a bool, a number, a string, a list or a
  dict with string keys (an association list with distinct keys).
\<close>

datatype json =
    JNull
  | JBool bool
  | JNum number
  | JStr string
  | JArr "json list"
  | JObj "(string \<times> json) list"

text \<open>
  \<^verbatim>\<open>x[key]\<close> with a string key: only a dict that has the key answers; a missing key
  raises KeyError, every other receiver raises TypeError. Inside \<^verbatim>\<open>real_distance\<close> all
  of these are caught by \<^verbatim>\<open>except Exception\<close>, so a raise is \<open>None\<close>.
\<close>

fun subscript_key :: "json \<Rightarrow> string \<Rightarrow> json option" where
  "subscript_key (JObj kvs) k = map_of kvs k"
| "subscript_key _ k = None"

text \<open>
  \<^verbatim>\<open>x[0]\<close>: the first element of a non-empty list, the first character of a non-empty
  string; IndexError on empty ones, KeyError on a dict (its keys are strings), TypeError
  otherwise.
\<close>

fun subscript_0 :: "json \<Rightarrow> json option" where
  "subscript_0 (JArr (v # vs)) = Some v"
| "subscript_0 (JStr (c # cs)) = Some (JStr [c])"
| "subscript_0 _ = None"

subsection \<open>The two remote tiers\<close>

text \<open>
  The outcome of \<^verbatim>\<open>requests.get(..., timeout=5)\<close>: the call raises (timeout, connection
  error), or a response arrives with a status code and a body that decodes to JSON or
  does not.
\<close>

datatype http_outcome =
    RequestError
  | Response nat "json option"

text \<open>
  \<^verbatim>\<open>r.raise_for_status()\<close> raises for status codes 400 to 599; \<^verbatim>\<open>r.json()\<close> raises
  when the body is not JSON.
\<close>

fun response_json :: "http_outcome \<Rightarrow> json option" where
  "response_json RequestError = None"
| "response_json (Response status body) =
     (if 400 \<le> status \<and> status < 600 then None else body)"

text \<open>The network, as seen by the resolver: what each provider answers to a request.\<close>

record network =
  osrm_get :: "real \<times> real \<Rightarrow> real \<times> real \<Rightarrow> http_outcome"
  ors_get :: "string \<Rightarrow> real \<times> real \<Rightarrow> real \<times> real \<Rightarrow> http_outcome"

text \<open>Lines 21 to 26: \<^verbatim>\<open>data["routes"][0]["distance"]\<close>; \<open>None\<close> is the except branch.\<close>

definition osrm_tier :: "network \<Rightarrow> EV \<Rightarrow> Station \<Rightarrow> json option" where
  "osrm_tier net ev station =
     (case response_json (osrm_get net (ev_lon ev, ev_lat ev) (st_lon station, st_lat station)) of
        None \<Rightarrow> None
      | Some data \<Rightarrow>
          Option.bind (Option.bind (subscript_key data ''routes'') subscript_0)
            (\<lambda>route. subscript_key route ''distance''))"

text \<open>
  Lines 31 to 39:
  \<^verbatim>\<open>data["features"][0]["properties"]["segments"][0]["distance"]\<close>.
\<close>

definition ors_tier :: "network \<Rightarrow> string \<Rightarrow> EV \<Rightarrow> Station \<Rightarrow> json option" where
  "ors_tier net key ev station =
     (case response_json (ors_get net key (ev_lon ev, ev_lat ev) (st_lon station, st_lat station)) of
        None \<Rightarrow> None
      | Some data \<Rightarrow>
          Option.bind (Option.bind (Option.bind (Option.bind (Option.bind
            (subscript_key data ''features'') subscript_0)
            (\<lambda>f. subscript_key f ''properties''))
            (\<lambda>p. subscript_key p ''segments'')) subscript_0)
            (\<lambda>seg. subscript_key seg ''distance''))"

subsection \<open>The fallback and the resolver\<close>

definition radians :: "real \<Rightarrow> real" where
  "radians x = x * pi / 180"

text \<open>Lines 43 to 45.\<close>

definition flat_earth :: "EV \<Rightarrow> Station \<Rightarrow> real" where
  "flat_earth ev station =
     (let lat_diff_m = (ev_lat ev - st_lat station) * 111320;
          lon_diff_m = (ev_lon ev - st_lon station) * 111320 * cos (radians (ev_lat ev))
      in sqrt (lat_diff_m\<^sup>2 + lon_diff_m\<^sup>2))"

text \<open>
  Lines 28 to 41. \<^verbatim>\<open>ORS_API_KEY = os.getenv("ORS_API_KEY")\<close> is \<^verbatim>\<open>None\<close> or a
  string, and \<^verbatim>\<open>if ORS_API_KEY:\<close> holds for a non-empty string only; without it the
  second provider is not queried.
\<close>

fun ors_attempt :: "network \<Rightarrow> string option \<Rightarrow> EV \<Rightarrow> Station \<Rightarrow> json option" where
  "ors_attempt net None ev station = None"
| "ors_attempt net (Some k) ev station = (if k \<noteq> [] then ors_tier net k ev station else None)"

text \<open>
  \<^verbatim>\<open>real_distance\<close>. The value of a remote tier is returned as it was decoded, whatever
  its Python type; the network and the environment variable are parameters.
\<close>

definition real_distance :: "network \<Rightarrow> string option \<Rightarrow> EV \<Rightarrow> Station \<Rightarrow> json" where
  "real_distance net ORS_API_KEY ev station =
     (case osrm_tier net ev station of
        Some d \<Rightarrow> d
      | None \<Rightarrow>
          (case ors_attempt net ORS_API_KEY ev station of
             Some d \<Rightarrow> d
           | None \<Rightarrow> JNum (Finite (flat_earth ev station))))"

text \<open>
  A Python value used as a number: \<^verbatim>\<open>int\<close> and \<^verbatim>\<open>float\<close>, and \<^verbatim>\<open>bool\<close> as 0 or 1;
  comparing any other decoded value with a float raises TypeError, and so does
  \<^verbatim>\<open>round\<close>.
\<close>

fun as_number :: "json \<Rightarrow> number option" where
  "as_number (JNum x) = Some x"
| "as_number (JBool b) = Some (Finite (if b then 1 else 0))"
| "as_number _ = None"

text \<open>A network on which every request fails, and one whose first tier answers.\<close>

definition offline :: network where
  "offline = \<lparr>osrm_get = (\<lambda>_ _. RequestError), ors_get = (\<lambda>_ _ _. RequestError)\<rparr>"

definition osrm_answers :: "json \<Rightarrow> network" where
  "osrm_answers body =
     \<lparr>osrm_get = (\<lambda>_ _. Response 200 (Some body)), ors_get = (\<lambda>_ _ _. RequestError)\<rparr>"

section \<open>Assignment engine (optimizer.py, assign\_charging)\<close>

text \<open>
  The only exception \<^verbatim>\<open>assign_charging\<close> can raise: \<^verbatim>\<open>d < best_dist\<close> on a
  resolver answer that is not a number.
\<close>

datatype error = TypeError

text \<open>The dict appended to \<^verbatim>\<open>assignments\<close> (keys "ev", "station", "distance\_m").\<close>

record assignment =
  a_ev :: string
  a_station :: string
  distance_m :: number

text \<open>
  \<^verbatim>\<open>round(x, 2)\<close> on a finite number: the nearest multiple of 0.01, a tie going to the
  even one. \<^verbatim>\<open>inf\<close>, \<^verbatim>\<open>-inf\<close> and \<^verbatim>\<open>nan\<close> are returned as they are.
\<close>

definition round_half_even :: "real \<Rightarrow> int" where
  "round_half_even x =
     (let f = \<lfloor>x\<rfloor>; r = x - of_int f
      in if r < 1 / 2 then f else if 1 / 2 < r then f + 1 else if even f then f else f + 1)"

definition round2 :: "real \<Rightarrow> real" where
  "round2 x = of_int (round_half_even (x * 100)) / 100"

fun py_round2 :: "number \<Rightarrow> number" where
  "py_round2 (Finite x) = Finite (round2 x)"
| "py_round2 n = n"

text \<open>
  Lines 66 to 71, the scan of the stations for one vehicle, on the variables
  \<^verbatim>\<open>best_station\<close> and \<^verbatim>\<open>best_dist\<close>; the station is kept as its position in
  \<^verbatim>\<open>stations\<close>, and \<open>j\<close> is the position of the station at the head. The resolver \<open>rd\<close>
  is a parameter: \<^verbatim>\<open>real_distance\<close> on some network.
\<close>

fun scan_stations ::
  "(EV \<Rightarrow> Station \<Rightarrow> json) \<Rightarrow> EV \<Rightarrow> Station list \<Rightarrow> nat \<Rightarrow> nat option \<times> number
     \<Rightarrow> error + nat option \<times> number" where
  "scan_stations rd ev [] j best = Inr best"
| "scan_stations rd ev (station # rest) j (best_station, best_dist) =
     (if occupied station < capacity station then
        (case as_number (rd ev station) of
           None \<Rightarrow> Inl TypeError
         | Some d \<Rightarrow>
             if py_less d best_dist then scan_stations rd ev rest (Suc j) (Some j, d)
             else scan_stations rd ev rest (Suc j) (best_station, best_dist))
      else scan_stations rd ev rest (Suc j) (best_station, best_dist))"

text \<open>
  Lines 64 to 80, the body of the loop over the vehicles, for the vehicle at position
  \<open>i\<close> of \<^verbatim>\<open>evs\<close>: the scan starts from \<^verbatim>\<open>best_station = None\<close> and
  \<^verbatim>\<open>best_dist = float("inf")\<close>. The lists hold objects that the loop mutates in place:
  the state is the vehicles, the stations and the records so far. Distinct positions of a
  list are taken to hold distinct objects. \<^verbatim>\<open>if best_station:\<close> holds for every station
  object, so it fails for \<^verbatim>\<open>None\<close> only.
\<close>

type_synonym run_state = "EV list \<times> Station list \<times> assignment list"

fun assign_one :: "(EV \<Rightarrow> Station \<Rightarrow> json) \<Rightarrow> nat \<Rightarrow> run_state \<Rightarrow> error + run_state" where
  "assign_one rd i (evs, stations, assignments) =
     (case scan_stations rd (evs ! i) stations 0 (None, PosInf) of
        Inl e \<Rightarrow> Inl e
      | Inr (None, best_dist) \<Rightarrow> Inr (evs, stations, assignments)
      | Inr (Some j, best_dist) \<Rightarrow>
          Inr (evs[i := (evs ! i)\<lparr>assigned_station := Some (st_id (stations ! j))\<rparr>],
               stations[j := (stations ! j)\<lparr>occupied := occupied (stations ! j) + 1\<rparr>],
               assignments @
                 [\<lparr>a_ev = ev_id (evs ! i), a_station = st_id (stations ! j),
                   distance_m = py_round2 best_dist\<rparr>]))"

fun assign_loop :: "(EV \<Rightarrow> Station \<Rightarrow> json) \<Rightarrow> nat list \<Rightarrow> run_state \<Rightarrow> error + run_state" where
  "assign_loop rd [] s = Inr s"
| "assign_loop rd (i # rest) s =
     (case assign_one rd i s of Inl e \<Rightarrow> Inl e | Inr s' \<Rightarrow> assign_loop rd rest s')"

text \<open>
  Line 61: \<^verbatim>\<open>sorted(evs, key=lambda e: e.battery)\<close>, a stable sort, as the positions of
  the vehicles in processing order.
\<close>

definition evs_sorted :: "EV list \<Rightarrow> nat list" where
  "evs_sorted evs = sort_key (\<lambda>i. battery (evs ! i)) [0..<length evs]"

text \<open>
  \<^verbatim>\<open>assign_charging\<close>. The loop of lines 57 to 59 does nothing: a \<^verbatim>\<open>Station\<close> always
  has the attribute \<^verbatim>\<open>occupied\<close>. The result is the records together with the vehicles
  and stations as the run leaves them.
\<close>

definition assign_charging ::
  "(EV \<Rightarrow> Station \<Rightarrow> json) \<Rightarrow> EV list \<Rightarrow> Station list \<Rightarrow> error + run_state" where
  "assign_charging rd evs stations = assign_loop rd (evs_sorted evs) (evs, stations, [])"

text \<open>main.py, lines 117 to 121: the endpoint resets every counter, then runs the engine.\<close>

definition assign_charging_endpoint ::
  "(EV \<Rightarrow> Station \<Rightarrow> json) \<Rightarrow> FleetData \<Rightarrow> error + FleetData \<times> assignment list" where
  "assign_charging_endpoint rd fleet =
     (case assign_charging rd (fleet_evs fleet) (map (\<lambda>s. s\<lparr>occupied := 0\<rparr>) (fleet_stations fleet)) of
        Inl e \<Rightarrow> Inl e
      | Inr (evs, stations, assignments) \<Rightarrow>
          Inr (\<lparr>fleet_evs = evs, fleet_stations = stations\<rparr>, assignments))"

section \<open>Fleet simulator (main.py, simulate\_ev\_movement)\<close>

text \<open>
  The three random numbers drawn for one vehicle in one tick:
  \<^verbatim>\<open>random.uniform(-0.0005, 0.0005)\<close> twice and \<^verbatim>\<open>random.randint(0, 2)\<close>, whose
  bounds are both inclusive.
\<close>

record draw =
  d_lat :: real
  d_lon :: real
  drain :: int

definition valid_draw :: "draw \<Rightarrow> bool" where
  "valid_draw r \<longleftrightarrow>
     - 0.0005 \<le> d_lat r \<and> d_lat r \<le> 0.0005 \<and> - 0.0005 \<le> d_lon r \<and> d_lon r \<le> 0.0005 \<and>
     0 \<le> drain r \<and> drain r \<le> 2"

text \<open>Lines 40 to 47, the loop body for one vehicle.\<close>

definition simulate_ev :: "draw \<Rightarrow> EV \<Rightarrow> EV" where
  "simulate_ev r ev =
     (let ev1 = ev\<lparr>ev_lat := ev_lat ev + d_lat r, ev_lon := ev_lon ev + d_lon r,
                   battery := max 0 (battery ev - drain r)\<rparr>
      in if battery ev1 = 0 then ev1\<lparr>battery := 100, assigned_station := None\<rparr> else ev1)"

text \<open>
  \<^verbatim>\<open>simulate_ev_movement\<close>, one tick over the fleet; \<open>rng i\<close> is what the random
  generator yields for the vehicle at position \<open>i\<close>.
\<close>

definition simulate_ev_movement :: "(nat \<Rightarrow> draw) \<Rightarrow> EV list \<Rightarrow> EV list" where
  "simulate_ev_movement rng evs = map (\<lambda>(i, ev). simulate_ev (rng i) ev) (enumerate 0 evs)"

text \<open>The scheduler calls the simulator once per period; \<open>rng n\<close> are the draws of tick \<open>n\<close>.\<close>

fun run_ticks :: "(nat \<Rightarrow> nat \<Rightarrow> draw) \<Rightarrow> nat \<Rightarrow> EV list \<Rightarrow> EV list" where
  "run_ticks rng 0 evs = evs"
| "run_ticks rng (Suc n) evs = simulate_ev_movement (rng n) (run_ticks rng n evs)"

section \<open>Connection manager (main.py, ConnectionManager)\<close>

text \<open>
  A websocket is an object compared by identity: a number. \<^verbatim>\<open>send_text\<close> is a parameter
  that tells whether the send to a connection returns (\<open>True\<close>) or raises. Coroutines
  that run between two sends are not modelled.
\<close>

type_synonym websocket = nat

definition connect :: "websocket \<Rightarrow> websocket list \<Rightarrow> websocket list" where
  "connect ws active_connections = active_connections @ [ws]"

definition disconnect :: "websocket \<Rightarrow> websocket list \<Rightarrow> websocket list" where
  "disconnect ws active_connections =
     (if ws \<in> set active_connections then remove1 ws active_connections else active_connections)"

text \<open>
  Lines 66 to 74. The loop runs over a copy of the list; the state is the list itself and
  the connections that received the message. \<^verbatim>\<open>list.remove\<close> deletes the first equal
  element and raises ValueError when there is none, which is passed over.
\<close>

fun broadcast_loop ::
  "(websocket \<Rightarrow> string \<Rightarrow> bool) \<Rightarrow> string \<Rightarrow> websocket list
     \<Rightarrow> websocket list \<times> websocket list \<Rightarrow> websocket list \<times> websocket list" where
  "broadcast_loop send_text message [] st = st"
| "broadcast_loop send_text message (connection # rest) (active_connections, received) =
     (if send_text connection message
      then broadcast_loop send_text message rest (active_connections, received @ [connection])
      else broadcast_loop send_text message rest (remove1 connection active_connections, received))"

definition broadcast ::
  "(websocket \<Rightarrow> string \<Rightarrow> bool) \<Rightarrow> string \<Rightarrow> websocket list \<Rightarrow> websocket list \<times> websocket list" where
  "broadcast send_text message active_connections =
     broadcast_loop send_text message active_connections (active_connections, [])"

section \<open>Nearby-stations query (main.py, get\_nearby\_stations)\<close>

text \<open>The two shapes of the returned dict.\<close>

datatype nearby_response =
    EV_not_found
  | Nearby string int "(string \<times> number) list"

text \<open>
  \<^verbatim>\<open>sorted(xs, key=...)\<close> with the keys already computed. On keys that are numbers other
  than \<^verbatim>\<open>nan\<close>, which \<^verbatim>\<open><\<close> orders totally, the result is the stable ascending sort:
  each element is inserted, from the last to the first, in front of the first element
  whose key is not below its own. On other keys (a \<^verbatim>\<open>nan\<close>, a string, a list, a dict,
  \<^verbatim>\<open>None\<close>) the outcome depends on the comparisons the list sort happens to make; it is
  the parameter \<open>other\<close>.
\<close>

fun insort_less :: "number \<times> 'a \<Rightarrow> (number \<times> 'a) list \<Rightarrow> (number \<times> 'a) list" where
  "insort_less x [] = [x]"
| "insort_less x (y # ys) = (if py_less (fst y) (fst x) then y # insort_less x ys else x # y # ys)"

definition py_sorted ::
  "(json list \<Rightarrow> 'a list \<Rightarrow> error + 'a list) \<Rightarrow> json list \<Rightarrow> 'a list \<Rightarrow> error + 'a list" where
  "py_sorted other keys xs =
     (case those (map as_number keys) of
        None \<Rightarrow> other keys xs
      | Some ks \<Rightarrow>
          if NaN \<in> set ks then other keys xs
          else Inr (map snd (foldr insort_less (zip ks xs) [])))"

text \<open>
  The network need not answer two requests for the same pair alike, and the query asks
  twice for every station: \<open>rd k\<close> is the resolver at the \<open>k\<close>-th call of
  \<^verbatim>\<open>real_distance\<close> the query makes. Line 131 makes one call per station, in the order
  of the fleet, for the sort keys.
\<close>

definition sort_keys :: "(nat \<Rightarrow> EV \<Rightarrow> Station \<Rightarrow> json) \<Rightarrow> EV \<Rightarrow> Station list \<Rightarrow> json list" where
  "sort_keys rd ev stations = map (\<lambda>(k, s). rd k ev s) (enumerate 0 stations)"

text \<open>
  Lines 135 to 138 make one more call per station, in sorted order, from call \<open>k\<close> on, and
  round the answer; \<^verbatim>\<open>round\<close> raises TypeError on what is not a number.
\<close>

fun nearby_list ::
  "(nat \<Rightarrow> EV \<Rightarrow> Station \<Rightarrow> json) \<Rightarrow> EV \<Rightarrow> nat \<Rightarrow> Station list \<Rightarrow> error + (string \<times> number) list" where
  "nearby_list rd ev k [] = Inr []"
| "nearby_list rd ev k (s # rest) =
     (case as_number (rd k ev s) of
        None \<Rightarrow> Inl TypeError
      | Some d \<Rightarrow>
          (case nearby_list rd ev (Suc k) rest of
             Inl e \<Rightarrow> Inl e
           | Inr out \<Rightarrow> Inr ((st_id s, py_round2 d) # out)))"

text \<open>Lines 128 to 139.\<close>

definition get_nearby_stations ::
  "(json list \<Rightarrow> Station list \<Rightarrow> error + Station list) \<Rightarrow> (nat \<Rightarrow> EV \<Rightarrow> Station \<Rightarrow> json)
     \<Rightarrow> FleetData \<Rightarrow> string \<Rightarrow> error + nearby_response" where
  "get_nearby_stations other rd fleet x =
     (case find (\<lambda>e. ev_id e = x) (fleet_evs fleet) of
        None \<Rightarrow> Inr EV_not_found
      | Some ev \<Rightarrow>
          (case py_sorted other (sort_keys rd ev (fleet_stations fleet)) (fleet_stations fleet) of
             Inl e \<Rightarrow> Inl e
           | Inr stations_sorted \<Rightarrow>
               (case nearby_list rd ev (length (fleet_stations fleet)) stations_sorted of
                  Inl e \<Rightarrow> Inl e
                | Inr out \<Rightarrow> Inr (Nearby (ev_id ev) (battery ev) out))))"

section \<open>The sample fleet (main.py, fleet\_data)\<close>

definition fleet_data :: FleetData where
  "fleet_data =
     \<lparr>fleet_evs =
        [\<lparr>ev_id = ''UNO'', battery = 30, ev_lat = 40.7128, ev_lon = - 74.0060, assigned_station = None\<rparr>,
         \<lparr>ev_id = ''DUO-Y'', battery = 20, ev_lat = 40.7138, ev_lon = - 74.0050, assigned_station = None\<rparr>,
         \<lparr>ev_id = ''LIVRO'', battery = 60, ev_lat = 40.7150, ev_lon = - 74.0070, assigned_station = None\<rparr>,
         \<lparr>ev_id = ''DUO-S'', battery = 80, ev_lat = 40.7165, ev_lon = - 74.0085, assigned_station = None\<rparr>,
         \<lparr>ev_id = ''UNO-2'', battery = 50, ev_lat = 40.7145, ev_lon = - 74.0040, assigned_station = None\<rparr>],
      fleet_stations =
        [\<lparr>st_id = ''Station-A'', st_lat = 40.7200, st_lon = - 74.0100, capacity = 2, occupied = 0\<rparr>,
         \<lparr>st_id = ''Station-B'', st_lat = 40.7300, st_lon = - 74.0000, capacity = 1, occupied = 0\<rparr>,
         \<lparr>st_id = ''Station-C'', st_lat = 40.7400, st_lon = - 74.0020, capacity = 2, occupied = 0\<rparr>]\<rparr>"

section \<open>Notions used in the statements\<close>


definition same_station :: "Station \<Rightarrow> Station \<Rightarrow> bool" where
  "same_station s s' \<longleftrightarrow> s' = s\<lparr>occupied := occupied s'\<rparr>"

text \<open>
  The state of a run of \<^verbatim>\<open>assign_charging\<close> when the first \<open>n\<close> vehicles of the
  processing order have had their turn.
\<close>

definition run_upto :: "(EV \<Rightarrow> Station \<Rightarrow> json) \<Rightarrow> EV list \<Rightarrow> Station list \<Rightarrow> nat \<Rightarrow> error + run_state" where
  "run_upto rd vs ss n = assign_loop rd (take n (evs_sorted vs)) (vs, ss, [])"

text \<open>A resolver that answers every request with a finite number.\<close>

definition finite_answers :: "(EV \<Rightarrow> Station \<Rightarrow> json) \<Rightarrow> bool" where
  "finite_answers rd \<longleftrightarrow> (\<forall>v s. \<exists>x. as_number (rd v s) = Some (Finite x))"

text \<open>The chargers still free, summed over the stations.\<close>

definition free_slots :: "Station list \<Rightarrow> int" where
  "free_slots ss = (\<Sum>s\<leftarrow>ss. capacity s - occupied s)"

text \<open>
  For the examples: the body in which the first provider reports the distance \<open>d\<close>, and
  a network whose first provider reports the sum of the two coordinate differences.
\<close>

definition route_body :: "number \<Rightarrow> json" where
  "route_body d = JObj [(''routes'', JArr [JObj [(''distance'', JNum d)]])]"

definition grid :: network where
  "grid =
     \<lparr>osrm_get = (\<lambda>(lon1, lat1) (lon2, lat2).
          Response 200 (Some (route_body (Finite (\<bar>lat1 - lat2\<bar> + \<bar>lon1 - lon2\<bar>))))),
      ors_get = (\<lambda>_ _ _. RequestError)\<rparr>"

text \<open>
  Vehicles and stations for the examples. On \<open>grid\<close>, station \<open>S1\<close> is at distance 5
  from \<open>V1\<close>, 1 from \<open>V2\<close> and 2.125 from \<open>V3\<close>; station \<open>S2\<close> is at distance 1 from
  \<open>V1\<close>, 3 from \<open>V2\<close> and 6.125 from \<open>V3\<close>.
\<close>

definition V1 :: EV where
  "V1 = \<lparr>ev_id = ''V1'', battery = 20, ev_lat = 0, ev_lon = 5, assigned_station = None\<rparr>"

definition V2 :: EV where
  "V2 = \<lparr>ev_id = ''V2'', battery = 80, ev_lat = 0, ev_lon = 1, assigned_station = None\<rparr>"

definition V3 :: EV where
  "V3 = \<lparr>ev_id = ''V3'', battery = 50, ev_lat = 2.125, ev_lon = 0, assigned_station = Some ''S9''\<rparr>"

definition S1 :: Station where
  "S1 = \<lparr>st_id = ''S1'', st_lat = 0, st_lon = 0, capacity = 1, occupied = 0\<rparr>"

definition S2 :: Station where
  "S2 = \<lparr>st_id = ''S2'', st_lat = 0, st_lon = 4, capacity = 2, occupied = 0\<rparr>"

section \<open>Properties of the resolver\<close>

lemma real_distance_fallback:
  assumes "osrm_tier net ev station = None"
    and "ors_attempt net key ev station = None"
  shows "real_distance net key ev station = JNum (Finite (flat_earth ev station))"
  using assms by (simp add: real_distance_def)

lemma ors_attempt_None_iff:
  "ors_attempt net key ev station = None \<longleftrightarrow>
     key = None \<or> key = Some [] \<or> (\<exists>k. key = Some k \<and> ors_tier net k ev station = None)"
  by (cases key) auto

lemma osrm_tier_offline: "osrm_tier offline ev station = None"
  by (simp add: osrm_tier_def offline_def)

lemma ors_tier_offline: "ors_tier offline k ev station = None"
  by (simp add: ors_tier_def offline_def)

lemma osrm_tier_answers:
  "osrm_tier (osrm_answers (JObj [(''routes'', JArr [JObj [(''distance'', v)]])])) ev station = Some v"
  by (simp add: osrm_tier_def osrm_answers_def)

text \<open>The first tier wins whenever it yields a value; the second is not consulted then.\<close>

lemma real_distance_osrm_first:
  assumes "osrm_tier net ev station = Some v"
  shows "real_distance net key ev station = v"
  using assms by (simp add: real_distance_def)

text \<open>Without a key (unset or empty) the answer of the second provider plays no role.\<close>

lemma real_distance_without_key:
  assumes "key = None \<or> key = Some []"
  shows "real_distance net key ev station = real_distance (net\<lparr>ors_get := other\<rparr>) key ev station"
  using assms by (auto simp: real_distance_def osrm_tier_def split: option.splits)

text \<open>When the remote tiers yield numbers, if anything, the resolver returns a number.\<close>

lemma real_distance_numeric:
  assumes "\<And>v. osrm_tier net ev station = Some v \<Longrightarrow> as_number v \<noteq> None"
    and "\<And>v. ors_attempt net key ev station = Some v \<Longrightarrow> as_number v \<noteq> None"
  shows "as_number (real_distance net key ev station) \<noteq> None"
  using assms by (auto simp: real_distance_def split: option.splits)

text \<open>
  C5: when the first tier fails and the second is unavailable (no key, or an empty one)
  or fails as well, the resolver returns the flat-earth distance: the Euclidean norm of
  the latitude difference times 111320 and the longitude difference times 111320 times
  the cosine of the vehicle's latitude in radians. The right-hand side mentions the
  coordinates of the two points and nothing else.
\<close>

theorem C5_fallback_formula:
  assumes "osrm_tier net ev station = None"
    and "key = None \<or> key = Some [] \<or> (\<exists>k. key = Some k \<and> ors_tier net k ev station = None)"
  shows "real_distance net key ev station =
     JNum (Finite (sqrt (((ev_lat ev - st_lat station) * 111320)\<^sup>2 +
                 ((ev_lon ev - st_lon station) * 111320 * cos (ev_lat ev * pi / 180))\<^sup>2)))"
proof -
  from assms(2) have "ors_attempt net key ev station = None"
    by (simp add: ors_attempt_None_iff)
  with assms(1) show ?thesis
    by (simp add: real_distance_fallback flat_earth_def radians_def Let_def)
qed

text \<open>
  A vehicle on the equator, three degrees south and four degrees east of the station,
  with no provider reachable: 5 times 111320 metres.
\<close>

theorem C5_fallback_formula_witness:
  "osrm_tier offline \<lparr>ev_id = ''V'', battery = 50, ev_lat = 0, ev_lon = 4, assigned_station = None\<rparr>
       \<lparr>st_id = ''S'', st_lat = 3, st_lon = 0, capacity = 1, occupied = 0\<rparr> = None \<and>
   real_distance offline None \<lparr>ev_id = ''V'', battery = 50, ev_lat = 0, ev_lon = 4, assigned_station = None\<rparr>
       \<lparr>st_id = ''S'', st_lat = 3, st_lon = 0, capacity = 1, occupied = 0\<rparr> = JNum (Finite 556600)"
proof -
  let ?ev = "\<lparr>ev_id = ''V'', battery = 50, ev_lat = 0, ev_lon = 4, assigned_station = None\<rparr>"
  let ?st = "\<lparr>st_id = ''S'', st_lat = 3, st_lon = 0, capacity = 1, occupied = 0\<rparr>"
  have h: "osrm_tier offline ?ev ?st = None" by (rule osrm_tier_offline)
  have s: "sqrt 309803560000 = (556600::real)"
    by (rule real_sqrt_unique) simp_all
  show ?thesis
    using C5_fallback_formula[OF h, of None] h s by simp
qed

text \<open>
  C6: the resolver does not always return a number. When the first provider answers with
  status 200 and the body \<^verbatim>\<open>{"routes": [{"distance": "far"}]}\<close>, line 26 returns
  the string; nothing was raised, so no later tier is tried. A string is not a number:
  comparing it with a float raises TypeError.
\<close>

theorem C6_string_distance_returned:
  "real_distance (osrm_answers (JObj [(''routes'', JArr [JObj [(''distance'', JStr ''far'')]])])) None
      \<lparr>ev_id = ''UNO'', battery = 30, ev_lat = 40.7128, ev_lon = - 74.0060, assigned_station = None\<rparr>
      \<lparr>st_id = ''Station-A'', st_lat = 40.7200, st_lon = - 74.0100, capacity = 2, occupied = 0\<rparr>
     = JStr ''far'' \<and>
   as_number (JStr ''far'') = None"
  by (simp add: real_distance_def osrm_tier_answers)

section \<open>Properties of the assignment engine\<close>

subsection \<open>The scan of the stations\<close>

lemma py_less_trans: "py_less a b \<Longrightarrow> py_less b c \<Longrightarrow> py_less a c"
  by (cases a; cases b; cases c) auto

lemma py_less_PosInf_iff: "py_less d PosInf \<longleftrightarrow> (\<exists>x. d = Finite x) \<or> d = NegInf"
  by (cases d) auto

lemma scan_origin:
  assumes "scan_stations rd ev ss j best = Inr r"
  shows "r = best \<or> (\<exists>k<length ss. occupied (ss ! k) < capacity (ss ! k) \<and>
              (\<exists>d. as_number (rd ev (ss ! k)) = Some d \<and> py_less d (snd best) \<and> r = (Some (j + k), d)))"
  using assms
proof (induction ss arbitrary: j best)
  case Nil
  then show ?case by simp
next
  case (Cons s ss)
  obtain bs bd where best: "best = (bs, bd)" by (cases best)
  show ?case
  proof (cases "occupied s < capacity s")
    case False
    with Cons.prems best have "scan_stations rd ev ss (Suc j) best = Inr r" by simp
    from Cons.IH[OF this] show ?thesis by fastforce
  next
    case True
    with Cons.prems best obtain d where d: "as_number (rd ev s) = Some d"
      and sc: "scan_stations rd ev ss (Suc j) (if py_less d bd then (Some j, d) else best) = Inr r"
      by (auto split: option.splits if_splits)
    show ?thesis
    proof (cases "py_less d bd")
      case less: True
      with sc have "scan_stations rd ev ss (Suc j) (Some j, d) = Inr r" by simp
      from Cons.IH[OF this] show ?thesis
      proof
        assume "r = (Some j, d)"
        with True d less best show ?thesis by (intro disjI2 exI[of _ 0]) simp
      next
        assume "\<exists>k<length ss. occupied (ss ! k) < capacity (ss ! k) \<and>
           (\<exists>d'. as_number (rd ev (ss ! k)) = Some d' \<and> py_less d' (snd (Some j, d)) \<and> r = (Some (Suc j + k), d'))"
        then obtain k d' where k: "k < length ss" "occupied (ss ! k) < capacity (ss ! k)"
          "as_number (rd ev (ss ! k)) = Some d'" "py_less d' d" "r = (Some (Suc j + k), d')"
          by auto
        from k(4) less have "py_less d' bd" by (rule py_less_trans)
        with k best show ?thesis by (intro disjI2 exI[of _ "Suc k"]) simp
      qed
    next
      case False
      with sc have "scan_stations rd ev ss (Suc j) best = Inr r" by simp
      from Cons.IH[OF this] show ?thesis by fastforce
    qed
  qed
qed


lemma scan_total:
  assumes "\<forall>s\<in>set ss. occupied s < capacity s \<longrightarrow> as_number (rd ev s) \<noteq> None"
  shows "\<exists>r. scan_stations rd ev ss j best = Inr r"
  using assms
proof (induction ss arbitrary: j best)
  case Nil
  show ?case by (rule exI[of _ best]) simp
next
  case (Cons s ss)
  obtain bs bd where best: "best = (bs, bd)" by (cases best)
  from Cons.prems have rest: "\<forall>s\<in>set ss. occupied s < capacity s \<longrightarrow> as_number (rd ev s) \<noteq> None"
    by simp
  show ?case
  proof (cases "occupied s < capacity s")
    case False
    with Cons.IH[OF rest, of "Suc j" best] best show ?thesis by simp
  next
    case True
    with Cons.prems obtain d where d: "as_number (rd ev s) = Some d" by auto
    from Cons.IH[OF rest, of "Suc j" "(Some j, d)"] Cons.IH[OF rest, of "Suc j" best] True d best
    show ?thesis by simp
  qed
qed

lemma scan_min_finite:
  assumes "scan_stations rd ev ss j best = Inr r"
    and "\<forall>s\<in>set ss. occupied s < capacity s \<longrightarrow> (\<exists>x. as_number (rd ev s) = Some (Finite x))"
    and "best = (None, PosInf) \<or> (\<exists>m0 d0. best = (Some m0, Finite d0) \<and> m0 < j)"
    and "k < length ss" and "occupied (ss ! k) < capacity (ss ! k)"
  shows "\<exists>m d d'. r = (Some m, Finite d) \<and> as_number (rd ev (ss ! k)) = Some (Finite d') \<and>
           d \<le> d' \<and> (j + k < m \<longrightarrow> d < d')"
  using assms
proof (induction ss arbitrary: j best k)
  case Nil
  then show ?case by simp
next
  case (Cons s ss)
  obtain bs bd where best: "best = (bs, bd)" by (cases best)
  from Cons.prems(2) have fin: "\<forall>s\<in>set ss. occupied s < capacity s \<longrightarrow> (\<exists>x. as_number (rd ev s) = Some (Finite x))"
    by simp
  let ?next = "if occupied s < capacity s \<and> py_less (the (as_number (rd ev s))) bd
               then (Some j, the (as_number (rd ev s))) else best"
  from Cons.prems(1,2) best have sc: "scan_stations rd ev ss (Suc j) ?next = Inr r"
    by (auto split: option.splits if_splits)
  have init: "?next = (None, PosInf) \<or> (\<exists>m0 d0. ?next = (Some m0, Finite d0) \<and> m0 < Suc j)"
  proof (cases "occupied s < capacity s \<and> py_less (the (as_number (rd ev s))) bd")
    case True
    with Cons.prems(2) obtain x where "as_number (rd ev s) = Some (Finite x)" by auto
    with True show ?thesis by simp
  next
    case False
    with Cons.prems(3) show ?thesis by (auto simp: less_Suc_eq)
  qed
  show ?case
  proof (cases k)
    case 0
    with Cons.prems have free: "occupied s < capacity s" by simp
    with Cons.prems(2) obtain x where x: "as_number (rd ev s) = Some (Finite x)" by auto
    have "\<exists>m1 d1. ?next = (Some m1, Finite d1) \<and> d1 \<le> x \<and> m1 \<le> j"
      using Cons.prems(3) best free x by (auto simp: less_imp_le)
    then obtain m1 d1 where b1: "?next = (Some m1, Finite d1)" "d1 \<le> x" "m1 \<le> j" by blast
    from scan_origin[OF sc] show ?thesis
    proof
      assume "r = ?next"
      with b1 x 0 show ?thesis by auto
    next
      assume "\<exists>k'<length ss. occupied (ss ! k') < capacity (ss ! k') \<and>
         (\<exists>d. as_number (rd ev (ss ! k')) = Some d \<and> py_less d (snd ?next) \<and> r = (Some (Suc j + k'), d))"
      then obtain k' d where k': "k' < length ss" "occupied (ss ! k') < capacity (ss ! k')"
        "as_number (rd ev (ss ! k')) = Some d" "py_less d (snd ?next)" "r = (Some (Suc j + k'), d)"
        by blast
      from fin k'(1,2) obtain y where "as_number (rd ev (ss ! k')) = Some (Finite y)"
        using nth_mem by blast
      with k'(3) have d: "d = Finite y" by simp
      with k'(4) b1(1) have "y < d1" by simp
      with k'(5) d b1(2) x 0 show ?thesis by auto
    qed
  next
    case (Suc k')
    with Cons.prems(4,5) have "k' < length ss" "occupied (ss ! k') < capacity (ss ! k')" by auto
    from Cons.IH[OF sc fin init this] Suc show ?thesis by auto
  qed
qed

subsection \<open>One turn\<close>




lemma same_station_refl: "same_station s s"
  by (simp add: same_station_def)

lemma same_station_trans: "same_station a b \<Longrightarrow> same_station b c \<Longrightarrow> same_station a c"
  by (cases a; cases b; cases c) (simp add: same_station_def)

lemma same_station_fields:
  "same_station s s' \<Longrightarrow> st_id s' = st_id s \<and> capacity s' = capacity s \<and> st_lat s' = st_lat s \<and> st_lon s' = st_lon s"
  by (cases s; cases s') (simp add: same_station_def)


lemma assign_one_cases:
  assumes "assign_one rd i (vs, ss, recs) = Inr (vs', ss', recs')"
  obtains (skip) bd where "scan_stations rd (vs ! i) ss 0 (None, PosInf) = Inr (None, bd)"
      "vs' = vs" "ss' = ss" "recs' = recs"
  | (pick) m d where "scan_stations rd (vs ! i) ss 0 (None, PosInf) = Inr (Some m, d)"
      "m < length ss" "occupied (ss ! m) < capacity (ss ! m)"
      "as_number (rd (vs ! i) (ss ! m)) = Some d" "py_less d PosInf"
      "vs' = vs[i := (vs ! i)\<lparr>assigned_station := Some (st_id (ss ! m))\<rparr>]"
      "ss' = ss[m := (ss ! m)\<lparr>occupied := occupied (ss ! m) + 1\<rparr>]"
      "recs' = recs @ [\<lparr>a_ev = ev_id (vs ! i), a_station = st_id (ss ! m), distance_m = py_round2 d\<rparr>]"
proof (cases "scan_stations rd (vs ! i) ss 0 (None, PosInf)")
  case (Inl e)
  with assms show ?thesis by simp
next
  case (Inr r)
  obtain bs bd where r: "r = (bs, bd)" by (cases r)
  show ?thesis
  proof (cases bs)
    case None
    with Inr r assms show ?thesis by (intro skip[of bd]) auto
  next
    case (Some m)
    from scan_origin[OF Inr] r Some
    have "m < length ss \<and> occupied (ss ! m) < capacity (ss ! m) \<and>
        as_number (rd (vs ! i) (ss ! m)) = Some bd \<and> py_less bd PosInf"
      by auto
    with Some Inr r assms show ?thesis by (intro pick[of m bd]) auto
  qed
qed

lemma assign_one_finite:
  assumes "assign_one rd i (vs, ss, recs) = Inr (vs', ss', recs')"
    and "\<forall>s\<in>set ss. occupied s < capacity s \<longrightarrow> (\<exists>x. as_number (rd (vs ! i) s) = Some (Finite x))"
  obtains (full) "\<forall>s\<in>set ss. \<not> occupied s < capacity s" "vs' = vs" "ss' = ss" "recs' = recs"
  | (pick) m d where "m < length ss" "occupied (ss ! m) < capacity (ss ! m)"
      "as_number (rd (vs ! i) (ss ! m)) = Some (Finite d)"
      "\<forall>k<length ss. occupied (ss ! k) < capacity (ss ! k) \<longrightarrow>
         (\<exists>d'. as_number (rd (vs ! i) (ss ! k)) = Some (Finite d') \<and> d \<le> d' \<and> (k < m \<longrightarrow> d < d'))"
      "vs' = vs[i := (vs ! i)\<lparr>assigned_station := Some (st_id (ss ! m))\<rparr>]"
      "ss' = ss[m := (ss ! m)\<lparr>occupied := occupied (ss ! m) + 1\<rparr>]"
      "recs' = recs @ [\<lparr>a_ev = ev_id (vs ! i), a_station = st_id (ss ! m),
                        distance_m = Finite (round2 d)\<rparr>]"
  using assms(1)
proof (cases rule: assign_one_cases)
  case (skip bd)
  have "\<forall>s\<in>set ss. \<not> occupied s < capacity s"
  proof
    fix s assume "s \<in> set ss"
    then obtain k where k: "k < length ss" "ss ! k = s" by (auto simp: in_set_conv_nth)
    show "\<not> occupied s < capacity s"
    proof
      assume "occupied s < capacity s"
      with k scan_min_finite[OF skip(1) assms(2) _ k(1)] show False by auto
    qed
  qed
  with skip show ?thesis by (intro full) auto
next
  case (pick m d)
  from scan_min_finite[OF pick(1) assms(2) _ pick(2,3)] pick(4)
  obtain x where x: "d = Finite x" by auto
  have "\<forall>k<length ss. occupied (ss ! k) < capacity (ss ! k) \<longrightarrow>
         (\<exists>d'. as_number (rd (vs ! i) (ss ! k)) = Some (Finite d') \<and> x \<le> d' \<and> (k < m \<longrightarrow> x < d'))"
  proof (intro allI impI)
    fix k assume "k < length ss" "occupied (ss ! k) < capacity (ss ! k)"
    from scan_min_finite[OF pick(1) assms(2) _ this] x
    show "\<exists>d'. as_number (rd (vs ! i) (ss ! k)) = Some (Finite d') \<and> x \<le> d' \<and> (k < m \<longrightarrow> x < d')"
      by auto
  qed
  with pick x show ?thesis by (intro that(2)[of m x]) auto
qed

lemma assign_loop_append:
  "assign_loop rd (xs @ ys) s =
     (case assign_loop rd xs s of Inl e \<Rightarrow> Inl e | Inr s' \<Rightarrow> assign_loop rd ys s')"
  by (induction xs arbitrary: s) (auto split: sum.splits)

lemma run_upto_all: "run_upto rd vs ss (length vs) = assign_charging rd vs ss"
  by (simp add: run_upto_def assign_charging_def evs_sorted_def)

lemma run_upto_Suc:
  assumes "n < length vs"
  shows "run_upto rd vs ss (Suc n) =
     (case run_upto rd vs ss n of Inl e \<Rightarrow> Inl e | Inr s \<Rightarrow> assign_one rd (evs_sorted vs ! n) s)"
proof -
  have "n < length (evs_sorted vs)" using assms by (simp add: evs_sorted_def)
  then have "take (Suc n) (evs_sorted vs) = take n (evs_sorted vs) @ [evs_sorted vs ! n]"
    by (rule take_Suc_conv_app_nth)
  then show ?thesis
    by (simp add: run_upto_def assign_loop_append split: sum.splits)
qed

lemma nth_update_if: "xs[i := x] ! j = (if i = j \<and> i < length xs then x else xs ! j)"
  by (cases "i < length xs") (auto simp: nth_list_update list_update_beyond)


lemma assign_one_stations:
  assumes "assign_one rd i (vs, ss, recs) = Inr (vs', ss', recs')"
  shows "list_all2 same_station ss ss'"
  using assms
proof (cases rule: assign_one_cases)
  case (skip bd)
  then show ?thesis by (simp add: list_all2_refl same_station_refl)
next
  case (pick m d)
  then show ?thesis
    by (auto simp: list_all2_conv_all_nth nth_update_if same_station_def)
qed

lemma assign_one_occupied:
  assumes "assign_one rd i (vs, ss, recs) = Inr (vs', ss', recs')" and "j < length ss"
  shows "occupied (ss ! j) \<le> occupied (ss' ! j) \<and> occupied (ss' ! j) \<le> max (occupied (ss ! j)) (capacity (ss ! j))"
  using assms(1)
proof (cases rule: assign_one_cases)
  case (skip bd)
  then show ?thesis by simp
next
  case (pick m d)
  from pick(2,3,7) assms(2) show ?thesis
    by (auto simp: nth_list_update)
qed

subsection \<open>Counters and records along a run\<close>


lemma assign_loop_stations:
  assumes "assign_loop rd xs (vs, ss, recs) = Inr (vs', ss', recs')"
  shows "list_all2 same_station ss ss'"
  using assms
proof (induction xs arbitrary: vs ss recs)
  case Nil
  then show ?case by (simp add: list_all2_refl same_station_refl)
next
  case (Cons i xs)
  then obtain vs1 ss1 recs1 where one: "assign_one rd i (vs, ss, recs) = Inr (vs1, ss1, recs1)"
    and rest: "assign_loop rd xs (vs1, ss1, recs1) = Inr (vs', ss', recs')"
    by (auto split: sum.splits)
  from assign_one_stations[OF one] Cons.IH[OF rest] show ?case
    by (rule list_all2_trans[rotated]) (rule same_station_trans)
qed

lemma assign_loop_occupied:
  assumes "assign_loop rd xs (vs, ss, recs) = Inr (vs', ss', recs')" and "j < length ss"
  shows "occupied (ss ! j) \<le> occupied (ss' ! j) \<and> occupied (ss' ! j) \<le> max (occupied (ss ! j)) (capacity (ss ! j))"
  using assms
proof (induction xs arbitrary: vs ss recs)
  case Nil
  then show ?case by simp
next
  case (Cons i xs)
  then obtain vs1 ss1 recs1 where one: "assign_one rd i (vs, ss, recs) = Inr (vs1, ss1, recs1)"
    and rest: "assign_loop rd xs (vs1, ss1, recs1) = Inr (vs', ss', recs')"
    by (auto split: sum.splits)
  from assign_one_stations[OF one] have len: "length ss1 = length ss"
    and same: "same_station (ss ! j) (ss1 ! j)"
    using Cons.prems(2) by (auto simp: list_all2_conv_all_nth)
  from same_station_fields[OF same] have cap: "capacity (ss1 ! j) = capacity (ss ! j)" by simp
  from assign_one_occupied[OF one Cons.prems(2)] Cons.IH[OF rest] Cons.prems(2) len cap
  show ?case by (auto simp: max_def split: if_splits)
qed

lemma run_step_stations:
  assumes "n < length vs"
    and "run_upto rd vs ss n = Inr (vs1, ss1, recs1)"
    and "run_upto rd vs ss (Suc n) = Inr (vs2, ss2, recs2)"
  shows "ss2 = ss1 \<or> (\<exists>m<length ss1. occupied (ss1 ! m) < capacity (ss1 ! m) \<and>
           ss2 = ss1[m := (ss1 ! m)\<lparr>occupied := occupied (ss1 ! m) + 1\<rparr>])"
proof -
  from assms have "assign_one rd (evs_sorted vs ! n) (vs1, ss1, recs1) = Inr (vs2, ss2, recs2)"
    by (simp add: run_upto_Suc)
  then show ?thesis
  proof (cases rule: assign_one_cases)
    case (skip bd)
    then show ?thesis by simp
  next
    case (pick m d)
    from pick(2,3,7) show ?thesis by blast
  qed
qed

lemma run_occupied_bounds:
  assumes "assign_charging rd vs ss = Inr (vs', ss', recs)"
    and "\<forall>s\<in>set ss. occupied s = 0 \<and> 0 \<le> capacity s"
  shows "\<forall>s'\<in>set ss'. 0 \<le> occupied s' \<and> occupied s' \<le> capacity s'"
proof
  fix s' assume "s' \<in> set ss'"
  then obtain j where j: "j < length ss'" "ss' ! j = s'" by (auto simp: in_set_conv_nth)
  from assms(1) have loop: "assign_loop rd (evs_sorted vs) (vs, ss, []) = Inr (vs', ss', recs)"
    by (simp add: assign_charging_def)
  from assign_loop_stations[OF loop] j have len: "j < length ss" and same: "same_station (ss ! j) s'"
    by (auto simp: list_all2_conv_all_nth)
  from len assms(2) have start: "occupied (ss ! j) = 0" "0 \<le> capacity (ss ! j)" by auto
  from assign_loop_occupied[OF loop len] j start same_station_fields[OF same]
  show "0 \<le> occupied s' \<and> occupied s' \<le> capacity s'" by simp
qed

lemma endpoint_occupied_bounds:
  assumes "assign_charging_endpoint rd fleet = Inr (fleet', recs)"
    and "\<forall>s\<in>set (fleet_stations fleet). 0 \<le> capacity s"
  shows "\<forall>s'\<in>set (fleet_stations fleet'). 0 \<le> occupied s' \<and> occupied s' \<le> capacity s'"
proof -
  let ?ss = "map (\<lambda>s. s\<lparr>occupied := 0\<rparr>) (fleet_stations fleet)"
  from assms(1) obtain vs' ss' where run: "assign_charging rd (fleet_evs fleet) ?ss = Inr (vs', ss', recs)"
    and fleet': "fleet' = \<lparr>fleet_evs = vs', fleet_stations = ss'\<rparr>"
    by (auto simp: assign_charging_endpoint_def split: sum.splits)
  from assms(2) have "\<forall>s\<in>set ?ss. occupied s = 0 \<and> 0 \<le> capacity s" by simp
  from run_occupied_bounds[OF run this] fleet' show ?thesis by simp
qed

lemma sum_list_map_update:
  fixes f :: "'a \<Rightarrow> int"
  assumes "m < length xs"
  shows "(\<Sum>x\<leftarrow>xs[m := y]. f x) = (\<Sum>x\<leftarrow>xs. f x) - f (xs ! m) + f y"
  using assms by (induction xs arbitrary: m) (auto split: nat.splits)

lemma free_slots_nonneg:
  assumes "\<forall>s\<in>set ss. occupied s \<le> capacity s"
  shows "0 \<le> free_slots ss"
  using assms by (induction ss) (auto simp: free_slots_def)

lemma free_slots_pos_iff:
  assumes "\<forall>s\<in>set ss. occupied s \<le> capacity s"
  shows "0 < free_slots ss \<longleftrightarrow> (\<exists>s\<in>set ss. occupied s < capacity s)"
  using assms
proof (induction ss)
  case Nil
  then show ?case by (simp add: free_slots_def)
next
  case (Cons s ss)
  from Cons.prems have "0 \<le> free_slots ss" by (intro free_slots_nonneg) simp
  moreover have "free_slots (s # ss) = (capacity s - occupied s) + free_slots ss"
    by (simp add: free_slots_def)
  ultimately show ?case using Cons by auto
qed



lemma assign_loop_count:
  assumes "assign_loop rd xs (vs, ss, recs) = Inr (vs', ss', recs')"
    and "\<forall>s\<in>set ss. occupied s \<le> capacity s"
    and "finite_answers rd"
  shows "int (length recs') = int (length recs) + min (int (length xs)) (free_slots ss) \<and>
         (\<Sum>s\<leftarrow>ss'. occupied s) = (\<Sum>s\<leftarrow>ss. occupied s) + (int (length recs') - int (length recs))"
  using assms
proof (induction xs arbitrary: vs ss recs)
  case Nil
  then show ?case using free_slots_nonneg[of ss] by simp
next
  case (Cons i xs)
  then obtain vs1 ss1 recs1 where one: "assign_one rd i (vs, ss, recs) = Inr (vs1, ss1, recs1)"
    and rest: "assign_loop rd xs (vs1, ss1, recs1) = Inr (vs', ss', recs')"
    by (auto split: sum.splits)
  from Cons.prems(3) have fin: "\<forall>s\<in>set ss. occupied s < capacity s \<longrightarrow>
      (\<exists>x. as_number (rd (vs ! i) s) = Some (Finite x))"
    by (simp add: finite_answers_def)
  from one fin show ?case
  proof (cases rule: assign_one_finite)
    case full
    with free_slots_pos_iff[OF Cons.prems(2)] free_slots_nonneg[OF Cons.prems(2)]
    have "free_slots ss = 0" by auto
    with Cons.IH[OF rest[unfolded full] Cons.prems(2,3)] show ?thesis by simp
  next
    case (pick m d)
    note m = pick(1,2)
    have inv1: "\<forall>s\<in>set ss1. occupied s \<le> capacity s"
    proof
      fix s assume "s \<in> set ss1"
      then have "s \<in> set (ss[m := (ss ! m)\<lparr>occupied := occupied (ss ! m) + 1\<rparr>])"
        by (simp only: pick(6))
      then have "s \<in> insert ((ss ! m)\<lparr>occupied := occupied (ss ! m) + 1\<rparr>) (set ss)"
        by (rule subsetD[OF set_update_subset_insert])
      then show "occupied s \<le> capacity s"
      proof
        assume "s = (ss ! m)\<lparr>occupied := occupied (ss ! m) + 1\<rparr>"
        with m(2) show ?thesis by simp
      next
        assume "s \<in> set ss"
        with Cons.prems(2) show ?thesis by blast
      qed
    qed
    have fs: "free_slots ss1 = free_slots ss - 1"
      unfolding pick(6) free_slots_def by (simp add: sum_list_map_update[OF m(1)])
    have occ: "(\<Sum>s\<leftarrow>ss1. occupied s) = (\<Sum>s\<leftarrow>ss. occupied s) + 1"
      unfolding pick(6) by (simp add: sum_list_map_update[OF m(1)])
    have "ss ! m \<in> set ss" using m(1) by (rule nth_mem)
    with m(2) have "\<exists>s\<in>set ss. occupied s < capacity s" by blast
    with free_slots_pos_iff[OF Cons.prems(2)] have pos: "0 < free_slots ss" by simp
    have len1: "int (length recs1) = int (length recs) + 1" unfolding pick(7) by simp
    from Cons.IH[OF rest inv1 Cons.prems(3)]
    have IH1: "int (length recs') = int (length recs1) + min (int (length xs)) (free_slots ss1)"
      and IH2: "(\<Sum>s\<leftarrow>ss'. occupied s) = (\<Sum>s\<leftarrow>ss1. occupied s) + (int (length recs') - int (length recs1))"
      by blast+
    have "int (length recs') = int (length recs) + min (int (length (i # xs))) (free_slots ss)"
      using IH1 len1 fs pos by (simp add: min_def)
    moreover have "(\<Sum>s\<leftarrow>ss'. occupied s) = (\<Sum>s\<leftarrow>ss. occupied s) + (int (length recs') - int (length recs))"
      using IH2 occ len1 by simp
    ultimately show ?thesis by blast
  qed
qed

lemma assign_loop_records:
  assumes "assign_loop rd xs (vs, ss, recs) = Inr (vs', ss', recs')"
  shows "\<exists>js new. subseq js xs \<and> recs' = recs @ new \<and> map a_ev new = map (\<lambda>i. ev_id (vs ! i)) js \<and>
           (\<forall>i. i \<notin> set js \<longrightarrow> vs' ! i = vs ! i)"
  using assms
proof (induction xs arbitrary: vs ss recs)
  case Nil
  then show ?case by simp
next
  case (Cons i xs)
  then obtain vs1 ss1 recs1 where one: "assign_one rd i (vs, ss, recs) = Inr (vs1, ss1, recs1)"
    and rest: "assign_loop rd xs (vs1, ss1, recs1) = Inr (vs', ss', recs')"
    by (auto split: sum.splits)
  from Cons.IH[OF rest] obtain js new where IH: "subseq js xs" "recs' = recs1 @ new"
    "map a_ev new = map (\<lambda>i. ev_id (vs1 ! i)) js" "\<forall>i. i \<notin> set js \<longrightarrow> vs' ! i = vs1 ! i"
    by blast
  from one show ?case
  proof (cases rule: assign_one_cases)
    case (skip bd)
    with IH show ?thesis by (intro exI[of _ js] exI[of _ new]) auto
  next
    case (pick m d)
    have ids: "ev_id (vs1 ! k) = ev_id (vs ! k)" for k
      unfolding pick(6) by (simp add: nth_update_if)
    have other: "k \<noteq> i \<Longrightarrow> vs1 ! k = vs ! k" for k
      unfolding pick(6) by simp
    let ?r = "\<lparr>a_ev = ev_id (vs ! i), a_station = st_id (ss ! m), distance_m = py_round2 d\<rparr>"
    from IH pick(8) ids other show ?thesis
      by (intro exI[of _ "i # js"] exI[of _ "?r # new"]) auto
  qed
qed


lemma evs_sorted_mset: "mset (evs_sorted vs) = mset [0..<length vs]"
  by (simp add: evs_sorted_def)

lemma evs_sorted_vehicles: "map (\<lambda>i. vs ! i) (evs_sorted vs) = sort_key battery vs"
proof -
  have "map (\<lambda>i. vs ! i) (sort_key (\<lambda>i. battery (vs ! i)) xs) = sort_key battery (map (\<lambda>i. vs ! i) xs)" for xs
  proof (induction xs)
    case Nil
    then show ?case by simp
  next
    case (Cons x xs)
    have ins: "map (\<lambda>i. vs ! i) (insort_key (\<lambda>i. battery (vs ! i)) x ys) =
        insort_key battery (vs ! x) (map (\<lambda>i. vs ! i) ys)" for ys
      by (induction ys) auto
    from Cons show ?case by (simp add: ins)
  qed
  from this[of "[0..<length vs]"] show ?thesis by (simp add: evs_sorted_def map_nth)
qed

lemma run_records_ids:
  assumes "assign_charging rd vs ss = Inr (vs', ss', recs)"
  shows "\<exists>js. subseq js (evs_sorted vs) \<and> map a_ev recs = map (\<lambda>i. ev_id (vs ! i)) js \<and>
           (\<forall>i. i \<notin> set js \<longrightarrow> vs' ! i = vs ! i)"
  using assign_loop_records[OF assms[unfolded assign_charging_def]] by auto




lemma assign_one_returns:
  assumes "\<forall>s\<in>set ss. occupied s < capacity s \<longrightarrow> as_number (rd (vs ! i) s) \<noteq> None"
  shows "\<exists>r. assign_one rd i (vs, ss, recs) = Inr r"
proof -
  from scan_total[where rd = rd and ev = "vs ! i" and ss = ss and j = 0 and best = "(None, PosInf)", OF assms]
  obtain bs bd where "scan_stations rd (vs ! i) ss 0 (None, PosInf) = Inr (bs, bd)" by auto
  then show ?thesis by (cases bs) auto
qed

lemma assign_loop_returns:
  assumes "\<forall>v s. as_number (rd v s) \<noteq> None"
  shows "\<exists>r. assign_loop rd xs st = Inr r"
proof (induction xs arbitrary: st)
  case Nil
  show ?case by (rule exI[of _ st]) simp
next
  case (Cons i xs)
  obtain vs ss recs where st: "st = (vs, ss, recs)" by (cases st) auto
  from assms have "\<forall>s\<in>set ss. occupied s < capacity s \<longrightarrow> as_number (rd (vs ! i) s) \<noteq> None"
    by blast
  from assign_one_returns[where rd = rd and vs = vs and i = i and ss = ss and recs = recs, OF this]
  obtain r where "assign_one rd i st = Inr r"
    unfolding st by blast
  with Cons.IH[of r] show ?case by simp
qed

lemma assign_charging_returns:
  assumes "\<forall>v s. as_number (rd v s) \<noteq> None"
  shows "\<exists>vs' ss' recs. assign_charging rd vs ss = Inr (vs', ss', recs)"
proof -
  from assign_loop_returns[OF assms] obtain r where "assign_charging rd vs ss = Inr r"
    unfolding assign_charging_def by blast
  then show ?thesis by (cases r) auto
qed

lemma evs_sorted_stable:
  "filter (\<lambda>i. battery (vs ! i) = b) (evs_sorted vs) = filter (\<lambda>i. battery (vs ! i) = b) [0..<length vs]"
  unfolding evs_sorted_def by (rule sort_key_stable)

lemma evs_sorted_sorted: "sorted (map (\<lambda>i. battery (vs ! i)) (evs_sorted vs))"
  unfolding evs_sorted_def by (rule sorted_sort_key)




subsection \<open>Rounding, and an example run\<close>





lemma round2_examples:
  "round2 (1 / 8) = 12 / 100" "round2 (3 / 8) = 38 / 100" "round2 1.236 = 1.24" "round2 1.234 = 1.23"
  "round2 5 = 5"
  by (simp_all add: round2_def round_half_even_def Let_def)

lemma grid_distance:
  "real_distance grid key ev s = JNum (Finite (\<bar>ev_lat ev - st_lat s\<bar> + \<bar>ev_lon ev - st_lon s\<bar>))"
  by (simp add: real_distance_def osrm_tier_def grid_def route_body_def)


lemmas example_defs = V1_def V2_def V3_def S1_def S2_def assign_charging_def evs_sorted_def
  upt_rec grid_distance round2_def round_half_even_def

lemma example_run:
  "assign_charging (real_distance grid None) [V2, V1, V3] [S1, S2] =
     Inr ([V2\<lparr>assigned_station := Some ''S2''\<rparr>, V1\<lparr>assigned_station := Some ''S2''\<rparr>,
           V3\<lparr>assigned_station := Some ''S1''\<rparr>],
          [S1\<lparr>occupied := 1\<rparr>, S2\<lparr>occupied := 2\<rparr>],
          [\<lparr>a_ev = ''V1'', a_station = ''S2'', distance_m = Finite 1\<rparr>,
           \<lparr>a_ev = ''V3'', a_station = ''S1'', distance_m = Finite 2.12\<rparr>,
           \<lparr>a_ev = ''V2'', a_station = ''S2'', distance_m = Finite 3\<rparr>])"
  by (simp add: example_defs)

subsection \<open>The claims on the assignment engine\<close>

text \<open>
  C1: a run that starts with every counter at 0, on stations whose capacity is not
  negative (the data model has it positive), returns with every counter between 0 and the
  capacity of its station. At every turn the stations are left as they are, or the
  counter of one station that had \<open>occupied < capacity\<close> goes up by one; no counter is
  ever lowered. The endpoint, which resets the counters before the run, returns with
  every counter within these bounds whatever the counters were before.
\<close>

theorem C1_occupied_within_capacity:
  assumes "assign_charging rd vs ss = Inr (vs', ss', recs)"
    and "\<forall>s\<in>set ss. occupied s = 0 \<and> 0 \<le> capacity s"
  shows "(\<forall>s'\<in>set ss'. 0 \<le> occupied s' \<and> occupied s' \<le> capacity s') \<and>
    (\<forall>n<length vs. \<forall>vs1 ss1 recs1 vs2 ss2 recs2.
       run_upto rd vs ss n = Inr (vs1, ss1, recs1) \<longrightarrow>
       run_upto rd vs ss (Suc n) = Inr (vs2, ss2, recs2) \<longrightarrow>
       ss2 = ss1 \<or> (\<exists>m<length ss1. occupied (ss1 ! m) < capacity (ss1 ! m) \<and>
           ss2 = ss1[m := (ss1 ! m)\<lparr>occupied := occupied (ss1 ! m) + 1\<rparr>])) \<and>
    (\<forall>fleet fleet' recs'.
       assign_charging_endpoint rd fleet = Inr (fleet', recs') \<and>
       (\<forall>s\<in>set (fleet_stations fleet). 0 \<le> capacity s) \<longrightarrow>
       (\<forall>s'\<in>set (fleet_stations fleet'). 0 \<le> occupied s' \<and> occupied s' \<le> capacity s'))"
proof -
  have "\<forall>fleet fleet' recs'.
       assign_charging_endpoint rd fleet = Inr (fleet', recs') \<and>
       (\<forall>s\<in>set (fleet_stations fleet). 0 \<le> capacity s) \<longrightarrow>
       (\<forall>s'\<in>set (fleet_stations fleet'). 0 \<le> occupied s' \<and> occupied s' \<le> capacity s')"
    using endpoint_occupied_bounds by blast
  with run_occupied_bounds[OF assms] run_step_stations show ?thesis by blast
qed

theorem C1_occupied_within_capacity_witness:
  "assign_charging (real_distance grid None) [V2, V1, V3] [S1, S2] =
     Inr ([V2\<lparr>assigned_station := Some ''S2''\<rparr>, V1\<lparr>assigned_station := Some ''S2''\<rparr>,
           V3\<lparr>assigned_station := Some ''S1''\<rparr>],
          [S1\<lparr>occupied := 1\<rparr>, S2\<lparr>occupied := 2\<rparr>],
          [\<lparr>a_ev = ''V1'', a_station = ''S2'', distance_m = Finite 1\<rparr>,
           \<lparr>a_ev = ''V3'', a_station = ''S1'', distance_m = Finite 2.12\<rparr>,
           \<lparr>a_ev = ''V2'', a_station = ''S2'', distance_m = Finite 3\<rparr>]) \<and>
   occupied S1 = 0 \<and> 0 \<le> capacity S1 \<and> occupied S2 = 0 \<and> 0 \<le> capacity S2 \<and>
   0 \<le> occupied (S1\<lparr>occupied := 1\<rparr>) \<and> occupied (S1\<lparr>occupied := 1\<rparr>) \<le> capacity (S1\<lparr>occupied := 1\<rparr>) \<and>
   0 \<le> occupied (S2\<lparr>occupied := 2\<rparr>) \<and> occupied (S2\<lparr>occupied := 2\<rparr>) \<le> capacity (S2\<lparr>occupied := 2\<rparr>)"
proof -
  have start: "\<forall>s\<in>set [S1, S2]. occupied s = 0 \<and> 0 \<le> capacity s"
    by (simp add: S1_def S2_def)
  from C1_occupied_within_capacity[OF example_run start]
  have "\<forall>s'\<in>set [S1\<lparr>occupied := 1\<rparr>, S2\<lparr>occupied := 2\<rparr>]. 0 \<le> occupied s' \<and> occupied s' \<le> capacity s'"
    by blast
  with example_run start show ?thesis by simp
qed

lemma two_vehicles_one_charger:
  assumes "battery v1 < battery v2" and "capacity s = 1" and "occupied s = 0"
    and "as_number (rd v1 s) = Some (Finite d1)"
  shows "assign_charging rd [v1, v2] [s] =
           Inr ([v1\<lparr>assigned_station := Some (st_id s)\<rparr>, v2], [s\<lparr>occupied := 1\<rparr>],
                [\<lparr>a_ev = ev_id v1, a_station = st_id s, distance_m = Finite (round2 d1)\<rparr>])"
    and "assign_charging rd [v2, v1] [s] =
           Inr ([v2, v1\<lparr>assigned_station := Some (st_id s)\<rparr>], [s\<lparr>occupied := 1\<rparr>],
                [\<lparr>a_ev = ev_id v1, a_station = st_id s, distance_m = Finite (round2 d1)\<rparr>])"
  using assms by (simp_all add: assign_charging_def evs_sorted_def upt_rec)

text \<open>
  C2: the processing order is ascending in battery level, holds every vehicle once, and
  keeps vehicles of equal battery level in their original order; it is the stable sort
  of the vehicles by battery. The run takes its turns in that order, and the records
  come out in it. With two vehicles of battery 20 and 80 and one station with one
  charger, nearer to the second vehicle, the first vehicle gets the station and the only
  record, whichever way round the two are listed.
\<close>

theorem C2_low_battery_first:
  "sorted (map (\<lambda>i. battery (vs ! i)) (evs_sorted vs)) \<and>
   mset (evs_sorted vs) = mset [0..<length vs] \<and>
   (\<forall>b. filter (\<lambda>i. battery (vs ! i) = b) (evs_sorted vs) =
        filter (\<lambda>i. battery (vs ! i) = b) [0..<length vs]) \<and>
   map (\<lambda>i. vs ! i) (evs_sorted vs) = sort_key battery vs \<and>
   run_upto rd vs ss (length vs) = assign_charging rd vs ss \<and>
   (\<forall>n<length vs. run_upto rd vs ss (Suc n) =
        (case run_upto rd vs ss n of Inl e \<Rightarrow> Inl e
         | Inr st \<Rightarrow> assign_one rd (evs_sorted vs ! n) st)) \<and>
   (\<forall>vs' ss' recs. assign_charging rd vs ss = Inr (vs', ss', recs) \<longrightarrow>
      (\<exists>js. subseq js (evs_sorted vs) \<and> map a_ev recs = map (\<lambda>i. ev_id (vs ! i)) js)) \<and>
   (battery v1 = 20 \<and> battery v2 = 80 \<and> capacity s = 1 \<and> occupied s = 0 \<and>
    as_number (rd v1 s) = Some (Finite d1) \<and> as_number (rd v2 s) = Some (Finite d2) \<and> d2 < d1 \<longrightarrow>
      assign_charging rd [v1, v2] [s] =
        Inr ([v1\<lparr>assigned_station := Some (st_id s)\<rparr>, v2], [s\<lparr>occupied := 1\<rparr>],
             [\<lparr>a_ev = ev_id v1, a_station = st_id s, distance_m = Finite (round2 d1)\<rparr>]) \<and>
      assign_charging rd [v2, v1] [s] =
        Inr ([v2, v1\<lparr>assigned_station := Some (st_id s)\<rparr>], [s\<lparr>occupied := 1\<rparr>],
             [\<lparr>a_ev = ev_id v1, a_station = st_id s, distance_m = Finite (round2 d1)\<rparr>]))"
proof -
  have ex: "battery v1 = 20 \<and> battery v2 = 80 \<and> capacity s = 1 \<and> occupied s = 0 \<and>
    as_number (rd v1 s) = Some (Finite d1) \<and> as_number (rd v2 s) = Some (Finite d2) \<and> d2 < d1 \<longrightarrow>
      assign_charging rd [v1, v2] [s] =
        Inr ([v1\<lparr>assigned_station := Some (st_id s)\<rparr>, v2], [s\<lparr>occupied := 1\<rparr>],
             [\<lparr>a_ev = ev_id v1, a_station = st_id s, distance_m = Finite (round2 d1)\<rparr>]) \<and>
      assign_charging rd [v2, v1] [s] =
        Inr ([v2, v1\<lparr>assigned_station := Some (st_id s)\<rparr>], [s\<lparr>occupied := 1\<rparr>],
             [\<lparr>a_ev = ev_id v1, a_station = st_id s, distance_m = Finite (round2 d1)\<rparr>])"
  proof (intro impI, elim conjE)
    assume a: "battery v1 = 20" "battery v2 = 80" "capacity s = 1" "occupied s = 0"
      "as_number (rd v1 s) = Some (Finite d1)"
    then have "battery v1 < battery v2" by simp
    from two_vehicles_one_charger[of v1 v2 s rd d1, OF this a(3,4,5)] show
      "assign_charging rd [v1, v2] [s] =
        Inr ([v1\<lparr>assigned_station := Some (st_id s)\<rparr>, v2], [s\<lparr>occupied := 1\<rparr>],
             [\<lparr>a_ev = ev_id v1, a_station = st_id s, distance_m = Finite (round2 d1)\<rparr>]) \<and>
      assign_charging rd [v2, v1] [s] =
        Inr ([v2, v1\<lparr>assigned_station := Some (st_id s)\<rparr>], [s\<lparr>occupied := 1\<rparr>],
             [\<lparr>a_ev = ev_id v1, a_station = st_id s, distance_m = Finite (round2 d1)\<rparr>])"
      by blast
  qed
  have recs: "\<forall>vs' ss' recs. assign_charging rd vs ss = Inr (vs', ss', recs) \<longrightarrow>
      (\<exists>js. subseq js (evs_sorted vs) \<and> map a_ev recs = map (\<lambda>i. ev_id (vs ! i)) js)"
    using run_records_ids by blast
  have steps: "\<forall>n<length vs. run_upto rd vs ss (Suc n) =
        (case run_upto rd vs ss n of Inl e \<Rightarrow> Inl e
         | Inr st \<Rightarrow> assign_one rd (evs_sorted vs ! n) st)"
    using run_upto_Suc by blast
  from evs_sorted_sorted evs_sorted_mset evs_sorted_stable evs_sorted_vehicles run_upto_all
    steps recs ex
  show ?thesis by blast
qed

text \<open>
  The two vehicles \<open>V1\<close> and \<open>V2\<close> at station \<open>S1\<close>, which is four units nearer to
  \<open>V2\<close>.
\<close>

theorem C2_low_battery_first_witness:
  "battery V1 = 20 \<and> battery V2 = 80 \<and> capacity S1 = 1 \<and> occupied S1 = 0 \<and>
   as_number (real_distance grid None V1 S1) = Some (Finite 5) \<and>
   as_number (real_distance grid None V2 S1) = Some (Finite 1) \<and> (1::real) < 5 \<and>
   assign_charging (real_distance grid None) [V2, V1] [S1] =
     Inr ([V2, V1\<lparr>assigned_station := Some ''S1''\<rparr>], [S1\<lparr>occupied := 1\<rparr>],
          [\<lparr>a_ev = ''V1'', a_station = ''S1'', distance_m = Finite 5\<rparr>])"
proof -
  have h: "battery V1 = 20 \<and> battery V2 = 80 \<and> capacity S1 = 1 \<and> occupied S1 = 0 \<and>
     as_number (real_distance grid None V1 S1) = Some (Finite 5) \<and>
     as_number (real_distance grid None V2 S1) = Some (Finite 1) \<and> (1::real) < 5"
    by (simp add: V1_def V2_def S1_def grid_distance)
  have r: "round2 5 = 5" by (simp add: round2_def round_half_even_def)
  have i: "ev_id V1 = ''V1''" "st_id S1 = ''S1''" by (simp_all add: V1_def S1_def)
  from C2_low_battery_first[of "[V2, V1]" "real_distance grid None" "[S1]" V1 V2 S1 5 1] h
  have "assign_charging (real_distance grid None) [V2, V1] [S1] =
        Inr ([V2, V1\<lparr>assigned_station := Some (st_id S1)\<rparr>], [S1\<lparr>occupied := 1\<rparr>],
             [\<lparr>a_ev = ev_id V1, a_station = st_id S1, distance_m = Finite (round2 5)\<rparr>])"
    by blast
  with h r i show ?thesis by simp
qed

lemma finite_answers_numbers:
  assumes "finite_answers rd"
  shows "\<forall>v s. as_number (rd v s) \<noteq> None"
  using assms unfolding finite_answers_def by (metis option.distinct(1))










text \<open>
  What the engine does with an answer that is not finite. When the first provider reports
  \<^verbatim>\<open>1e309\<close> or \<^verbatim>\<open>NaN\<close>, the resolver returns \<^verbatim>\<open>inf\<close> or \<^verbatim>\<open>nan\<close>; neither is below
  the initial \<^verbatim>\<open>best_dist\<close>, so the vehicle gets no station although a charger is free.
\<close>

lemma real_distance_unchecked:
  "real_distance (osrm_answers (route_body d)) key ev s = JNum d"
  by (simp add: real_distance_def osrm_tier_def osrm_answers_def route_body_def)

lemma infinite_answer_skipped:
  "assign_charging (real_distance (osrm_answers (route_body PosInf)) None) [V1] [S1] = Inr ([V1], [S1], [])"
  "assign_charging (real_distance (osrm_answers (route_body NaN)) None) [V1] [S1] = Inr ([V1], [S1], [])"
  by (simp_all add: assign_charging_def evs_sorted_def upt_rec real_distance_unchecked V1_def S1_def)

lemma selected_answer_below_infinity:
  assumes "assign_one rd i (vs, ss, recs) = Inr (vs', ss', recs')" and "recs' \<noteq> recs"
  shows "\<exists>m<length ss. \<exists>d. as_number (rd (vs ! i) (ss ! m)) = Some d \<and> py_less d PosInf \<and>
           recs' = recs @ [\<lparr>a_ev = ev_id (vs ! i), a_station = st_id (ss ! m), distance_m = py_round2 d\<rparr>]"
  using assms(1)
proof (cases rule: assign_one_cases)
  case (skip bd)
  with assms(2) show ?thesis by simp
next
  case (pick m d)
  then show ?thesis by blast
qed

text \<open>
  On the fleet of main.py, five vehicles and five chargers, the endpoint returns five
  records when the resolver answers with finite numbers.
\<close>

lemma sample_fleet_all_assigned:
  assumes "finite_answers rd"
  shows "\<exists>fleet' recs. assign_charging_endpoint rd fleet_data = Inr (fleet', recs) \<and> length recs = 5"
proof -
  let ?ss = "map (\<lambda>s. s\<lparr>occupied := 0\<rparr>) (fleet_stations fleet_data)"
  from assign_charging_returns[OF finite_answers_numbers[OF assms]]
  obtain vs' ss' recs where run: "assign_charging rd (fleet_evs fleet_data) ?ss = Inr (vs', ss', recs)"
    by blast
  have inv: "\<forall>s\<in>set ?ss. occupied s \<le> capacity s" by (simp add: fleet_data_def)
  have "free_slots ?ss = 5" by (simp add: fleet_data_def free_slots_def)
  with assign_loop_count[OF run[unfolded assign_charging_def] inv assms]
  have "length recs = 5" by (simp add: evs_sorted_def fleet_data_def)
  with run show ?thesis by (simp add: assign_charging_endpoint_def)
qed

section \<open>Properties of the fleet simulator\<close>

lemma simulate_ev_battery:
  "battery (simulate_ev r ev) =
     (if max 0 (battery ev - drain r) = 0 then 100 else max 0 (battery ev - drain r))"
  by (simp add: simulate_ev_def Let_def)

lemma simulate_ev_assigned:
  "assigned_station (simulate_ev r ev) =
     (if max 0 (battery ev - drain r) = 0 then None else assigned_station ev)"
  by (simp add: simulate_ev_def Let_def)

lemma simulate_ev_bounds:
  assumes "0 \<le> drain r" and "battery ev \<le> 100"
  shows "0 < battery (simulate_ev r ev) \<and> battery (simulate_ev r ev) \<le> 100"
  using assms by (auto simp: simulate_ev_battery max_def)

lemma simulate_ev_movement_set:
  assumes "ev' \<in> set (simulate_ev_movement rng vs)"
  shows "\<exists>i<length vs. ev' = simulate_ev (rng i) (vs ! i)"
  using assms by (auto simp: simulate_ev_movement_def in_set_enumerate_eq)

lemma simulate_ev_movement_length: "length (simulate_ev_movement rng vs) = length vs"
  by (simp add: simulate_ev_movement_def)

lemma run_ticks_length: "length (run_ticks rng n vs) = length vs"
  by (induction n) (simp_all add: simulate_ev_movement_length)

lemma run_ticks_upper:
  assumes "\<forall>ev\<in>set vs. battery ev \<le> 100" and "\<forall>n i. 0 \<le> drain (rng n i)"
  shows "\<forall>ev\<in>set (run_ticks rng n vs). battery ev \<le> 100"
proof (induction n)
  case 0
  from assms(1) show ?case by simp
next
  case (Suc n)
  show ?case
  proof
    fix ev' assume "ev' \<in> set (run_ticks rng (Suc n) vs)"
    then obtain i where i: "i < length (run_ticks rng n vs)"
      "ev' = simulate_ev (rng n i) (run_ticks rng n vs ! i)"
      using simulate_ev_movement_set by fastforce
    from i(1) Suc have "battery (run_ticks rng n vs ! i) \<le> 100" by simp
    with simulate_ev_bounds[of "rng n i"] assms(2) i(2) show "battery ev' \<le> 100" by blast
  qed
qed

lemma run_ticks_bounds:
  assumes "\<forall>ev\<in>set vs. battery ev \<le> 100" and "\<forall>n i. 0 \<le> drain (rng n i)"
    and "0 < n"
  shows "\<forall>ev\<in>set (run_ticks rng n vs). 0 < battery ev \<and> battery ev \<le> 100"
proof
  fix ev' assume in': "ev' \<in> set (run_ticks rng n vs)"
  from assms(3) obtain k where n: "n = Suc k" by (cases n) auto
  from in' obtain i where i: "i < length (run_ticks rng k vs)"
    "ev' = simulate_ev (rng k i) (run_ticks rng k vs ! i)"
    unfolding n using simulate_ev_movement_set by fastforce
  from i(1) run_ticks_upper[OF assms(1,2), of k] have "battery (run_ticks rng k vs ! i) \<le> 100"
    by simp
  with simulate_ev_bounds[of "rng k i"] assms(2) i(2)
  show "0 < battery ev' \<and> battery ev' \<le> 100" by blast
qed

text \<open>
  C7: for a vehicle with a battery level from 0 to 100 and a draw within the bounds of the
  random generator, the drain is 0, 1 or 2; the level after the tick is the old one less
  the drain, floored at 0, and where that is 0 the level is 100 and
  \<^verbatim>\<open>assigned_station\<close> is \<^verbatim>\<open>None\<close>, otherwise \<^verbatim>\<open>assigned_station\<close> is as before. So the
  level after the tick is above 0 and at most 100, and this holds for every vehicle after
  every number of ticks from 1 on.
\<close>

theorem C7_battery_after_tick:
  "(0 \<le> battery ev \<and> battery ev \<le> 100 \<and> valid_draw r \<longrightarrow>
      drain r \<in> {0, 1, 2} \<and>
      battery (simulate_ev r ev) =
        (if max 0 (battery ev - drain r) = 0 then 100 else max 0 (battery ev - drain r)) \<and>
      assigned_station (simulate_ev r ev) =
        (if max 0 (battery ev - drain r) = 0 then None else assigned_station ev) \<and>
      0 < battery (simulate_ev r ev) \<and> battery (simulate_ev r ev) \<le> 100) \<and>
   ((\<forall>ev\<in>set vs. 0 \<le> battery ev \<and> battery ev \<le> 100) \<and> (\<forall>n i. valid_draw (rng n i)) \<longrightarrow>
      (\<forall>n>0. \<forall>ev\<in>set (run_ticks rng n vs). 0 < battery ev \<and> battery ev \<le> 100))"
proof (intro conjI impI)
  assume a: "0 \<le> battery ev \<and> battery ev \<le> 100 \<and> valid_draw r"
  then have d: "0 \<le> drain r" "drain r \<le> 2" by (simp_all add: valid_draw_def)
  then show "drain r \<in> {0, 1, 2}" by auto
  show "battery (simulate_ev r ev) =
        (if max 0 (battery ev - drain r) = 0 then 100 else max 0 (battery ev - drain r))"
    by (rule simulate_ev_battery)
  show "assigned_station (simulate_ev r ev) =
        (if max 0 (battery ev - drain r) = 0 then None else assigned_station ev)"
    by (rule simulate_ev_assigned)
  from simulate_ev_bounds[OF d(1)] a
  show "0 < battery (simulate_ev r ev)" "battery (simulate_ev r ev) \<le> 100" by blast+
next
  assume a: "(\<forall>ev\<in>set vs. 0 \<le> battery ev \<and> battery ev \<le> 100) \<and> (\<forall>n i. valid_draw (rng n i))"
  then have "\<forall>ev\<in>set vs. battery ev \<le> 100" "\<forall>n i. 0 \<le> drain (rng n i)"
    by (simp_all add: valid_draw_def)
  from run_ticks_bounds[OF this]
  show "\<forall>n>0. \<forall>ev\<in>set (run_ticks rng n vs). 0 < battery ev \<and> battery ev \<le> 100" by blast
qed

text \<open>
  A vehicle at level 1 that is assigned to a station and drains 2: the level drops to 0
  and is reset within the tick.
\<close>

theorem C7_battery_after_tick_witness:
  "0 \<le> battery (V3\<lparr>battery := 1\<rparr>) \<and> battery (V3\<lparr>battery := 1\<rparr>) \<le> 100 \<and>
   valid_draw \<lparr>d_lat = 0.0001, d_lon = - 0.0002, drain = 2\<rparr> \<and>
   battery (simulate_ev \<lparr>d_lat = 0.0001, d_lon = - 0.0002, drain = 2\<rparr> (V3\<lparr>battery := 1\<rparr>)) = 100 \<and>
   assigned_station (simulate_ev \<lparr>d_lat = 0.0001, d_lon = - 0.0002, drain = 2\<rparr> (V3\<lparr>battery := 1\<rparr>)) = None \<and>
   simulate_ev_movement (\<lambda>i. \<lparr>d_lat = 0, d_lon = 0, drain = 2\<rparr>) [V3\<lparr>battery := 1\<rparr>, V1] =
     [V3\<lparr>battery := 100, assigned_station := None\<rparr>, V1\<lparr>battery := 18\<rparr>]"
proof -
  have h: "0 \<le> battery (V3\<lparr>battery := 1\<rparr>) \<and> battery (V3\<lparr>battery := 1\<rparr>) \<le> 100 \<and>
      valid_draw \<lparr>d_lat = 0.0001, d_lon = - 0.0002, drain = 2\<rparr>"
    by (simp add: valid_draw_def)
  have m: "simulate_ev_movement (\<lambda>i. \<lparr>d_lat = 0, d_lon = 0, drain = 2\<rparr>) [V3\<lparr>battery := 1\<rparr>, V1] =
     [V3\<lparr>battery := 100, assigned_station := None\<rparr>, V1\<lparr>battery := 18\<rparr>]"
    by (simp add: simulate_ev_movement_def simulate_ev_def V1_def V3_def)
  from C7_battery_after_tick[of "V3\<lparr>battery := 1\<rparr>" "\<lparr>d_lat = 0.0001, d_lon = - 0.0002, drain = 2\<rparr>"] h m
  show ?thesis by (simp add: V1_def)
qed


section \<open>Properties of the connection manager\<close>

lemma broadcast_loop_filter:
  assumes "\<forall>c\<in>set pre. send_text c message"
  shows "broadcast_loop send_text message rest (pre @ rest, received) =
           (pre @ filter (\<lambda>c. send_text c message) rest,
            received @ filter (\<lambda>c. send_text c message) rest)"
  using assms
proof (induction rest arbitrary: pre received)
  case Nil
  then show ?case by simp
next
  case (Cons c rest)
  show ?case
  proof (cases "send_text c message")
    case True
    with Cons.prems have "\<forall>x\<in>set (pre @ [c]). send_text x message" by simp
    from Cons.IH[OF this, of "received @ [c]"] True show ?thesis by simp
  next
    case False
    with Cons.prems have "c \<notin> set pre" by blast
    then have "remove1 c (pre @ c # rest) = pre @ rest" by (simp add: remove1_append)
    with Cons.IH[OF Cons.prems, of received] False show ?thesis by simp
  qed
qed

lemma broadcast_filter:
  "broadcast send_text message active =
     (filter (\<lambda>c. send_text c message) active, filter (\<lambda>c. send_text c message) active)"
  using broadcast_loop_filter[of "[]" send_text message active "[]"]
  by (simp add: broadcast_def)

text \<open>
  C9: every connection of the list whose send succeeds has received the message and is
  still in the list after the broadcast; every connection whose send fails is in the
  list no more. The list after the broadcast, and the connections that received the
  message, are the connections of the list whose send succeeds, in their order. With
  three connections registered, of which the second fails, the first and the third
  receive the message and stay.
\<close>

theorem C9_broadcast_resilience:
  "(\<forall>c\<in>set active. send_text c message \<longrightarrow>
       c \<in> set (snd (broadcast send_text message active)) \<and>
       c \<in> set (fst (broadcast send_text message active))) \<and>
   (\<forall>c\<in>set active. \<not> send_text c message \<longrightarrow>
       c \<notin> set (fst (broadcast send_text message active)) \<and>
       c \<notin> set (snd (broadcast send_text message active))) \<and>
   fst (broadcast send_text message active) = filter (\<lambda>c. send_text c message) active \<and>
   snd (broadcast send_text message active) = filter (\<lambda>c. send_text c message) active \<and>
   (send_text a message \<and> \<not> send_text b message \<and> send_text c' message \<longrightarrow>
      broadcast send_text message (connect c' (connect b (connect a []))) = ([a, c'], [a, c']))"
  by (auto simp: broadcast_filter connect_def)

theorem C9_broadcast_resilience_witness:
  "(\<lambda>c m. c \<noteq> 2) (1::nat) ''tick'' \<and> \<not> (\<lambda>c m. c \<noteq> 2) (2::nat) ''tick'' \<and>
   (\<lambda>c m. c \<noteq> 2) (3::nat) ''tick'' \<and>
   broadcast (\<lambda>c m. c \<noteq> 2) ''tick'' (connect 3 (connect 2 (connect 1 []))) = ([1, 3], [1, 3])"
  using C9_broadcast_resilience[of "connect 3 (connect 2 (connect 1 []))" "\<lambda>c m. c \<noteq> 2" "''tick''" 1 2 3]
  by simp

section \<open>Properties of the nearby-stations query\<close>












text \<open>
  When the network answers the second call for a station otherwise than the first, the
  distances listed need not ascend: the stations are in the order of the first answers
  (1 and 2) and show the second ones (9 and 2).
\<close>

lemma nearby_calls_may_differ:
  "get_nearby_stations other
     (\<lambda>k ev s. JNum (Finite (if k < 2 then (if st_id s = ''S1'' then 1 else 2)
                             else (if st_id s = ''S1'' then 9 else 2))))
     \<lparr>fleet_evs = [V1], fleet_stations = [S1, S2]\<rparr> ''V1'' =
   Inr (Nearby ''V1'' 20 [(''S1'', Finite 9), (''S2'', Finite 2)])"
  by (simp add: get_nearby_stations_def py_sorted_def sort_keys_def enumerate_eq_zip upt_rec
      V1_def S1_def S2_def round2_def round_half_even_def)

text \<open>
  An answer that is not a number, such as the string of the resolver's first tier above,
  makes \<^verbatim>\<open>round\<close> raise when the list is built.
\<close>

lemma nearby_list_type_error:
  assumes "s \<in> set xs" and "\<forall>k. as_number (rd k ev s) = None"
  shows "nearby_list rd ev k xs = Inl TypeError"
  using assms(1)
proof (induction xs arbitrary: k)
  case Nil
  then show ?case by simp
next
  case (Cons y ys)
  show ?case
  proof (cases "y = s")
    case True
    with assms(2) show ?thesis by simp
  next
    case False
    with Cons.prems have "s \<in> set ys" by simp
    from Cons.IH[OF this] show ?thesis
      by (simp split: option.splits)
  qed
qed

end
